theory Spec2Isabelle
  imports Main
begin

section \<open>Syntax trees\<close>

text \<open>
  The analyser consumes the tree built by the external parser. A node carries its
  \<open>type\<close>, its source \<open>text\<close>, the field name under which it hangs off its parent
  (what \<open>childForFieldName\<close> looks up), its start and end positions and its ordered
  \<open>children\<close>. The \<open>parent\<close> back-reference of a node is modelled by handing the
  chain of ancestors (nearest first) down the traversal.
\<close>

datatype node =
  Node (ntype: string) (ntext: string) (nfield: "string option")
       (startPosition: "nat \<times> nat") (endPosition: "nat \<times> nat") (children: "node list")

text \<open>The only exception the code can raise: reading a property of \<open>undefined\<close> or \<open>null\<close>.\<close>

datatype error = TypeError

text \<open>\<open>xs[i]\<close> of JavaScript: \<open>undefined\<close> out of range.\<close>

definition at_index :: "'a list \<Rightarrow> nat \<Rightarrow> 'a option" where
  "at_index xs i = (if i < length xs then Some (xs ! i) else None)"

text \<open>\<open>x.text\<close> where \<open>x\<close> may be \<open>undefined\<close>: a TypeError then.\<close>

definition text_of :: "node option \<Rightarrow> error + string" where
  "text_of x = (case x of None \<Rightarrow> Inl TypeError | Some c \<Rightarrow> Inr (ntext c))"

text \<open>\<open>node.children.find((child) => child.type === ty)\<close>.\<close>

definition find_type :: "string \<Rightarrow> node list \<Rightarrow> node option" where
  "find_type ty cs = find (\<lambda>child. ntype child = ty) cs"

text \<open>\<open>node.childForFieldName(f)\<close>: the first child attached under field \<open>f\<close>, or null.\<close>

definition childForFieldName :: "node \<Rightarrow> string \<Rightarrow> node option" where
  "childForFieldName n f = find (\<lambda>child. nfield child = Some f) (children n)"

section \<open>analyzeFunctions\<close>

subsection \<open>isNestedFunction\<close>

text \<open>
  The loop \<open>parent = node.parent; while (parent) {...; parent = parent.parent}\<close> over
  the chain of ancestors of the node, nearest first.
\<close>

definition function_kind :: "string \<Rightarrow> bool" where
  "function_kind ty \<longleftrightarrow>
     ty = ''function'' \<or> ty = ''method_definition'' \<or>
     ty = ''arrow_function'' \<or> ty = ''function_declaration''"

fun isNestedFunction :: "node list \<Rightarrow> bool" where
  "isNestedFunction [] = False"
| "isNestedFunction (parent # rest) =
     (if function_kind (ntype parent) then True else isNestedFunction rest)"

subsection \<open>findReturnStatement and determineReturnType\<close>

fun findReturnStatement :: "node \<Rightarrow> node option"
  and findReturnStatement_children :: "node list \<Rightarrow> node option" where
  "findReturnStatement (Node ty tx fl sp ep cs) =
     (if ty = ''return_statement'' then Some (Node ty tx fl sp ep cs)
      else findReturnStatement_children cs)"
| "findReturnStatement_children [] = None"
| "findReturnStatement_children (child # cs) =
     (case findReturnStatement child of
        Some result \<Rightarrow> Some result
      | None \<Rightarrow> findReturnStatement_children cs)"

definition determineReturnType :: "node \<Rightarrow> bool \<Rightarrow> bool \<Rightarrow> string" where
  "determineReturnType node isAsync isArrow =
     (if isAsync then ''Promise<void>''
      else if isArrow \<and>
           (case find (\<lambda>child. ntype child = ''statement_block'' \<or> ntype child = ''expression'')
                      (children node) of
              Some body \<Rightarrow> ntype body = ''expression''
            | None \<Rightarrow> True)
      then ''any''
      else
        (case findReturnStatement node of
           Some returnStatement \<Rightarrow>
             (case find (\<lambda>child. ntype child \<noteq> ''return'') (children returnStatement) of
                Some returnExpression \<Rightarrow>
                  (if ntype returnExpression = ''number'' then ''number''
                   else if ntype returnExpression = ''string'' then ''string''
                   else ''void'')
              | None \<Rightarrow> ''void'')
         | None \<Rightarrow> ''void''))"

subsection \<open>extractCalledFunctions\<close>

text \<open>
  \<open>calledFunctions\<close> is a JavaScript \<open>Set\<close>: it keeps insertion order and adding a
  member again changes nothing. \<open>classInstances\<close> is a \<open>Map\<close> from variable names to
  class names.
\<close>

definition set_add :: "string \<Rightarrow> string list \<Rightarrow> string list" where
  "set_add x xs = (if x \<in> set xs then xs else xs @ [x])"

record call_state =
  calledFunctions :: "string list"
  classInstances :: "string \<rightharpoonup> string"

text \<open>
  The name a \<open>call_expression\<close> node is recorded under (lines 216 to 227): the text of
  the callee, or for a member access whose object is not \<open>console\<close> the object (resolved
  through \<open>classInstances\<close> when it is known there), a dot and the property.
\<close>

definition called_name :: "(string \<rightharpoonup> string) \<Rightarrow> node \<Rightarrow> error + string" where
  "called_name instances n =
     (case at_index (children n) 0 of
        None \<Rightarrow> Inl TypeError
      | Some callee \<Rightarrow>
          if ntype callee = ''member_expression'' then
            (case at_index (children callee) 0 of
               None \<Rightarrow> Inl TypeError
             | Some obj \<Rightarrow>
                 (case at_index (children callee) 2 of
                    None \<Rightarrow> Inl TypeError
                  | Some prop \<Rightarrow>
                      if ntext obj \<noteq> ''console'' then
                        (case instances (ntext obj) of
                           Some cls \<Rightarrow> Inr (cls @ ''.'' @ ntext prop)
                         | None \<Rightarrow> Inr (ntext obj @ ''.'' @ ntext prop))
                      else Inr (ntext callee)))
          else Inr (ntext callee))"

text \<open>What \<open>traverseForCalls\<close> does at one node before it loops over the children.\<close>

definition visit_for_calls :: "node \<Rightarrow> call_state \<Rightarrow> error + call_state" where
  "visit_for_calls n st =
     (if ntype n = ''variable_declarator'' then
        (case (find_type ''identifier'' (children n), find_type ''new_expression'' (children n)) of
           (Some ident, Some init) \<Rightarrow>
             (case find_type ''identifier'' (children init) of
                Some c \<Rightarrow>
                  if ntext c \<noteq> [] then
                    Inr (st\<lparr>classInstances := (classInstances st)(ntext ident \<mapsto> ntext c)\<rparr>)
                  else Inr st
              | None \<Rightarrow> Inr st)
         | _ \<Rightarrow> Inr st)
      else if ntype n = ''call_expression'' then
        (case called_name (classInstances st) n of
           Inl e \<Rightarrow> Inl e
         | Inr functionName \<Rightarrow>
             if functionName \<noteq> ''console.log'' then
               Inr (st\<lparr>calledFunctions := set_add functionName (calledFunctions st)\<rparr>)
             else Inr st)
      else Inr st)"

fun traverseForCalls :: "node \<Rightarrow> call_state \<Rightarrow> error + call_state"
  and traverseForCalls_children :: "node list \<Rightarrow> call_state \<Rightarrow> error + call_state" where
  "traverseForCalls (Node ty tx fl sp ep cs) st =
     (case visit_for_calls (Node ty tx fl sp ep cs) st of
        Inl e \<Rightarrow> Inl e
      | Inr st' \<Rightarrow> traverseForCalls_children cs st')"
| "traverseForCalls_children [] st = Inr st"
| "traverseForCalls_children (child # cs) st =
     (case traverseForCalls child st of
        Inl e \<Rightarrow> Inl e
      | Inr st' \<Rightarrow> traverseForCalls_children cs st')"

text \<open>The \<open>className\<close> parameter is not used by the body.\<close>

definition extractCalledFunctions :: "node \<Rightarrow> string option \<Rightarrow> error + string list" where
  "extractCalledFunctions node className =
     (case traverseForCalls node \<lparr>calledFunctions = [], classInstances = Map.empty\<rparr> of
        Inl e \<Rightarrow> Inl e
      | Inr st \<Rightarrow> Inr (calledFunctions st))"

subsection \<open>extractFunctionInfo\<close>

record functionInfo =
  name :: string
  parameters :: string
  returnType :: string
  class_name :: "string option"
  call :: "string list option"

text \<open>
  The part of \<open>extractFunctionInfo\<close> from the nesting check on, once the function node,
  the name and the arrow flag are known.
\<close>

definition function_details ::
  "node list \<Rightarrow> node \<Rightarrow> string \<Rightarrow> bool \<Rightarrow> string option \<Rightarrow> error + functionInfo option" where
  "function_details ancestors functionNode nm isArrow className =
     (if isNestedFunction ancestors then Inr None
      else
        (case text_of (find_type ''formal_parameters'' (children functionNode)) of
           Inl e \<Rightarrow> Inl e
         | Inr params \<Rightarrow>
             let isAsync = (\<exists>child \<in> set (children functionNode). ntype child = ''async'');
                 rt = determineReturnType functionNode isAsync isArrow
             in (case extractCalledFunctions functionNode className of
                   Inl e \<Rightarrow> Inl e
                 | Inr calls \<Rightarrow>
                     Inr (Some \<lparr>name = nm, parameters = params, returnType = rt,
                                class_name = (case className of
                                                Some c \<Rightarrow> if c \<noteq> [] then Some c else None
                                              | None \<Rightarrow> None),
                                call = (if length calls > 0 then Some calls else None)\<rparr>))))"

text \<open>The body of the \<open>try\<close> block; \<open>Inl\<close> is a raised exception.\<close>

definition extractFunctionInfo_try ::
  "node list \<Rightarrow> node \<Rightarrow> string option \<Rightarrow> error + functionInfo option" where
  "extractFunctionInfo_try ancestors node className =
     (if ntype node = ''method_definition'' then
        (case text_of (find_type ''property_identifier'' (children node)) of
           Inl e \<Rightarrow> Inl e
         | Inr nm \<Rightarrow> function_details ancestors node nm False className)
      else if ntype node = ''function_declaration'' then
        (case text_of (find_type ''identifier'' (children node)) of
           Inl e \<Rightarrow> Inl e
         | Inr nm \<Rightarrow> function_details ancestors node nm False className)
      else if ntype node = ''lexical_declaration'' \<or> ntype node = ''variable_declaration'' then
        (case find_type ''variable_declarator'' (children node) of
           None \<Rightarrow> Inr None
         | Some declarator \<Rightarrow>
             (case find (\<lambda>child. ntype child = ''arrow_function'' \<or> ntype child = ''function'')
                        (children declarator) of
                None \<Rightarrow> Inr None
              | Some val \<Rightarrow>
                  (case text_of (find_type ''identifier'' (children declarator)) of
                     Inl e \<Rightarrow> Inl e
                   | Inr nm \<Rightarrow>
                       function_details ancestors val nm (ntype val = ''arrow_function'')
                         className)))
      else Inr None)"

text \<open>
  The \<open>catch\<close> clause logs the error and returns null. Writing to the console is not
  modelled.
\<close>

definition extractFunctionInfo :: "node list \<Rightarrow> node \<Rightarrow> string option \<Rightarrow> functionInfo option" where
  "extractFunctionInfo ancestors node className =
     (case extractFunctionInfo_try ancestors node className of
        Inl e \<Rightarrow> None
      | Inr r \<Rightarrow> r)"

subsection \<open>traverse\<close>

record analyzer_state =
  functions_out :: "functionInfo list"
  currentClass :: "string option"

text \<open>The \<open>switch\<close> at the head of \<open>traverse\<close>.\<close>

definition enter_node :: "node list \<Rightarrow> node \<Rightarrow> analyzer_state \<Rightarrow> error + analyzer_state" where
  "enter_node ancestors node st =
     (if ntype node = ''class_declaration'' then
        (case text_of (find_type ''identifier'' (children node)) of
           Inl e \<Rightarrow> Inl e
         | Inr c \<Rightarrow> Inr (st\<lparr>currentClass := Some c\<rparr>))
      else if ntype node = ''method_definition'' \<or> ntype node = ''function_declaration'' \<or>
              ntype node = ''lexical_declaration'' \<or> ntype node = ''variable_declaration'' then
        (case extractFunctionInfo ancestors node (currentClass st) of
           Some func \<Rightarrow> Inr (st\<lparr>functions_out := functions_out st @ [func]\<rparr>)
         | None \<Rightarrow> Inr st)
      else Inr st)"

text \<open>The reset after the loop over the children.\<close>

definition leave_node :: "node \<Rightarrow> analyzer_state \<Rightarrow> analyzer_state" where
  "leave_node node st =
     (if ntype node = ''class_declaration'' then st\<lparr>currentClass := None\<rparr> else st)"

fun traverse :: "node list \<Rightarrow> node \<Rightarrow> analyzer_state \<Rightarrow> error + analyzer_state"
  and traverse_children :: "node list \<Rightarrow> node list \<Rightarrow> analyzer_state \<Rightarrow> error + analyzer_state" where
  "traverse ancestors (Node ty tx fl sp ep cs) st =
     (case enter_node ancestors (Node ty tx fl sp ep cs) st of
        Inl e \<Rightarrow> Inl e
      | Inr st1 \<Rightarrow>
          (case traverse_children (Node ty tx fl sp ep cs # ancestors) cs st1 of
             Inl e \<Rightarrow> Inl e
           | Inr st2 \<Rightarrow> Inr (leave_node (Node ty tx fl sp ep cs) st2)))"
| "traverse_children ancestors [] st = Inr st"
| "traverse_children ancestors (child # cs) st =
     (case traverse ancestors child st of
        Inl e \<Rightarrow> Inl e
      | Inr st' \<Rightarrow> traverse_children ancestors cs st')"

text \<open>
  \<open>analyzeFunctions\<close> on the root node of the parsed tree (the parser itself is
  external). The root has no parent.
\<close>

definition analyzeFunctions :: "node \<Rightarrow> error + functionInfo list" where
  "analyzeFunctions rootNode =
     (case traverse [] rootNode \<lparr>functions_out = [], currentClass = None\<rparr> of
        Inl e \<Rightarrow> Inl e
      | Inr st \<Rightarrow> Inr (functions_out st))"

section \<open>getFunctionDeclarations\<close>

record functionDeclaration =
  decl_type :: string
  decl_name :: string
  decl_startPosition :: "nat \<times> nat"
  decl_endPosition :: "nat \<times> nat"

text \<open>The update of the parameter \<open>currentClass\<close> (here \<open>curClass\<close>) at a class node that has a name.\<close>

definition class_on_entry :: "node \<Rightarrow> string option \<Rightarrow> string option" where
  "class_on_entry node curClass =
     (if ntype node = ''class_declaration'' \<or> ntype node = ''class'' then
        (case childForFieldName node ''name'' of
           Some nameNode \<Rightarrow> Some (ntext nameNode)
         | None \<Rightarrow> curClass)
      else curClass)"

text \<open>
  \<open>functionName\<close> and \<open>signature\<close> of a candidate node. \<open>parametersList.text\<close> raises
  when the node has no \<open>parameters\<close> field.
\<close>

definition name_and_signature ::
  "node option \<Rightarrow> node \<Rightarrow> string option \<Rightarrow> error + (string option \<times> string)" where
  "name_and_signature parent node curClass =
     (if ntype node = ''function_declaration'' then
        (case childForFieldName node ''name'' of
           Some nameNode \<Rightarrow>
             (case text_of (childForFieldName node ''parameters'') of
                Inl e \<Rightarrow> Inl e
              | Inr ps \<Rightarrow> Inr (Some (ntext nameNode), ntext nameNode @ ps))
         | None \<Rightarrow> Inr (None, []))
      else if ntype node = ''method_definition'' then
        (case childForFieldName node ''name'' of
           Some nameNode \<Rightarrow>
             (case text_of (childForFieldName node ''parameters'') of
                Inl e \<Rightarrow> Inl e
              | Inr ps \<Rightarrow>
                  Inr (Some (ntext nameNode),
                       (case curClass of
                          Some c \<Rightarrow>
                            if c \<noteq> [] then c @ ''.'' @ ntext nameNode @ ps
                            else ntext nameNode @ ps
                        | None \<Rightarrow> ntext nameNode @ ps)))
         | None \<Rightarrow> Inr (None, []))
      else if ntype node = ''arrow_function'' then
        (case parent of
           Some p \<Rightarrow>
             if ntype p = ''variable_declarator'' then
               (case childForFieldName p ''name'' of
                  Some nameNode \<Rightarrow>
                    (case text_of (childForFieldName node ''parameters'') of
                       Inl e \<Rightarrow> Inl e
                     | Inr ps \<Rightarrow> Inr (Some (ntext nameNode), ntext nameNode @ ps))
                | None \<Rightarrow> Inr (None, []))
             else Inr (None, [])
         | None \<Rightarrow> Inr (None, []))
      else Inr (None, []))"

text \<open>The push of a named candidate: \<open>if (functionName)\<close> holds for a non-empty string.\<close>

definition push_declaration ::
  "node \<Rightarrow> string option \<times> string \<Rightarrow> functionDeclaration list \<Rightarrow> functionDeclaration list" where
  "push_declaration node ns acc =
     (case fst ns of
        Some functionName \<Rightarrow>
          if functionName \<noteq> [] then
            acc @ [\<lparr>decl_type = ntype node,
                    decl_name = (if snd ns \<noteq> [] then snd ns else functionName),
                    decl_startPosition = startPosition node,
                    decl_endPosition = endPosition node\<rparr>]
          else acc
      | None \<Rightarrow> acc)"

definition candidate_kind :: "string \<Rightarrow> bool" where
  "candidate_kind ty \<longleftrightarrow>
     ty = ''function_declaration'' \<or> ty = ''method_definition'' \<or> ty = ''arrow_function''"

fun traverseTree ::
    "node option \<Rightarrow> node \<Rightarrow> string option \<Rightarrow> bool \<Rightarrow> functionDeclaration list \<Rightarrow>
     error + functionDeclaration list"
  and traverseTree_children ::
    "node option \<Rightarrow> node list \<Rightarrow> string option \<Rightarrow> bool \<Rightarrow> functionDeclaration list \<Rightarrow>
     error + functionDeclaration list" where
  "traverseTree parent (Node ty tx fl sp ep cs) curClass insideFunction acc =
     (if candidate_kind ty \<and> \<not> insideFunction then
        (case name_and_signature parent (Node ty tx fl sp ep cs)
                (class_on_entry (Node ty tx fl sp ep cs) curClass) of
           Inl e \<Rightarrow> Inl e
         | Inr ns \<Rightarrow>
             traverseTree_children (Some (Node ty tx fl sp ep cs)) cs
               (class_on_entry (Node ty tx fl sp ep cs) curClass) True
               (push_declaration (Node ty tx fl sp ep cs) ns acc))
      else
        traverseTree_children (Some (Node ty tx fl sp ep cs)) cs
          (class_on_entry (Node ty tx fl sp ep cs) curClass) insideFunction acc)"
| "traverseTree_children parent [] curClass insideFunction acc = Inr acc"
| "traverseTree_children parent (child # cs) curClass insideFunction acc =
     (case traverseTree parent child curClass insideFunction acc of
        Inl e \<Rightarrow> Inl e
      | Inr acc' \<Rightarrow> traverseTree_children parent cs curClass insideFunction acc')"

definition getFunctionDeclarations :: "node \<Rightarrow> error + functionDeclaration list" where
  "getFunctionDeclarations rootNode = traverseTree None rootNode None False []"

section \<open>Notions of the specification\<close>

text \<open>The nodes of a subtree in pre-order, left to right; the subtree's root comes first.\<close>

fun preorder :: "node \<Rightarrow> node list"
  and preorder_children :: "node list \<Rightarrow> node list" where
  "preorder (Node ty tx fl sp ep cs) = Node ty tx fl sp ep cs # preorder_children cs"
| "preorder_children [] = []"
| "preorder_children (child # cs) = preorder child @ preorder_children cs"

subsection \<open>The decision table of the return type\<close>






subsection \<open>Aliases and the sequence of called names\<close>

text \<open>
  The alias a node introduces: a \<open>variable_declarator\<close> with an identifier \<open>v\<close> and a
  \<open>new_expression\<close> that names a class \<open>C\<close> binds \<open>v\<close> to \<open>C\<close>.
\<close>

definition binds :: "node \<Rightarrow> (string \<times> string) option" where
  "binds n =
     (if ntype n = ''variable_declarator'' then
        (case find_type ''identifier'' (children n) of
           None \<Rightarrow> None
         | Some v \<Rightarrow>
             (case find_type ''new_expression'' (children n) of
                None \<Rightarrow> None
              | Some init \<Rightarrow>
                  (case find_type ''identifier'' (children init) of
                     None \<Rightarrow> None
                   | Some c \<Rightarrow> if ntext c = [] then None else Some (ntext v, ntext c))))
      else None)"


text \<open>The alias table after the nodes \<open>ns\<close> were visited in this order, from table \<open>A\<close>.\<close>

fun aliases_from :: "(string \<rightharpoonup> string) \<Rightarrow> node list \<Rightarrow> (string \<rightharpoonup> string)" where
  "aliases_from A [] = A"
| "aliases_from A (n # ns) =
     aliases_from (case binds n of None \<Rightarrow> A | Some (v, c) \<Rightarrow> A(v \<mapsto> c)) ns"

definition aliases_of :: "node list \<Rightarrow> (string \<rightharpoonup> string)" where
  "aliases_of ns = aliases_from Map.empty ns"

text \<open>
  The names of the calls among the nodes \<open>ns\<close>, one for each call expression, in the
  order of the list and with repetitions; calls named \<open>console.log\<close> are left out.
\<close>

fun names_in_order :: "(string \<rightharpoonup> string) \<Rightarrow> node list \<Rightarrow> error + string list" where
  "names_in_order A [] = Inr []"
| "names_in_order A (n # ns) =
     (if ntype n = ''variable_declarator'' then names_in_order (aliases_from A [n]) ns
      else if ntype n = ''call_expression'' then
        (case called_name A n of
           Inl e \<Rightarrow> Inl e
         | Inr nm \<Rightarrow>
             (case names_in_order A ns of
                Inl e \<Rightarrow> Inl e
              | Inr rest \<Rightarrow> Inr (if nm = ''console.log'' then rest else nm # rest)))
      else names_in_order A ns)"

text \<open>The visits of \<open>traverseForCalls\<close> laid out along a list of nodes.\<close>

fun visit_all :: "node list \<Rightarrow> call_state \<Rightarrow> error + call_state" where
  "visit_all [] st = Inr st"
| "visit_all (n # ns) st =
     (case visit_for_calls n st of
        Inl e \<Rightarrow> Inl e
      | Inr st' \<Rightarrow> visit_all ns st')"

text \<open>Keeping the first occurrence of every element.\<close>

function dedup_first :: "'a list \<Rightarrow> 'a list" where
  "dedup_first [] = []"
| "dedup_first (x # xs) = x # dedup_first (removeAll x xs)"
  by pat_completeness auto
termination
  by (relation "measure length") (auto simp: less_Suc_eq_le)

subsection \<open>Well-formed class declarations\<close>

text \<open>Every class declaration of the tree has an identifier among its children.\<close>

definition classes_named :: "node \<Rightarrow> bool" where
  "classes_named rootNode =
     list_all (\<lambda>n. ntype n \<noteq> ''class_declaration'' \<or> find_type ''identifier'' (children n) \<noteq> None)
       (preorder rootNode)"

subsection \<open>The visits of the traversal\<close>





section \<open>Example trees\<close>

text \<open>
  Trees as the JavaScript grammar of the parser builds them. A keyword or punctuation
  token is a node whose type is its text. Positions play no role in what follows and
  are left at the origin.
\<close>

abbreviation tok :: "string \<Rightarrow> node" where
  "tok s \<equiv> Node s s None (0, 0) (0, 0) []"

abbreviation leaf :: "string \<Rightarrow> string \<Rightarrow> node" where
  "leaf ty tx \<equiv> Node ty tx None (0, 0) (0, 0) []"

abbreviation fleaf :: "string \<Rightarrow> string \<Rightarrow> string \<Rightarrow> node" where
  "fleaf f ty tx \<equiv> Node ty tx (Some f) (0, 0) (0, 0) []"

abbreviation branch :: "string \<Rightarrow> string \<Rightarrow> node list \<Rightarrow> node" where
  "branch ty tx cs \<equiv> Node ty tx None (0, 0) (0, 0) cs"

abbreviation fbranch :: "string \<Rightarrow> string \<Rightarrow> string \<Rightarrow> node list \<Rightarrow> node" where
  "fbranch f ty tx cs \<equiv> Node ty tx (Some f) (0, 0) (0, 0) cs"

text \<open>\<open>async function hello(){ const foo=()=>123; }\<close>\<close>

definition hello_decl :: node where
  "hello_decl =
     branch ''function_declaration'' ''async function hello(){ const foo=()=>123; }''
       [tok ''async'', tok ''function'', fleaf ''name'' ''identifier'' ''hello'',
        fbranch ''parameters'' ''formal_parameters'' ''()'' [tok ''('', tok '')''],
        fbranch ''body'' ''statement_block'' ''{ const foo=()=>123; }''
          [tok ''{'',
           branch ''lexical_declaration'' ''const foo=()=>123;''
             [tok ''const'',
              branch ''variable_declarator'' ''foo=()=>123''
                [fleaf ''name'' ''identifier'' ''foo'', tok ''='',
                 fbranch ''value'' ''arrow_function'' ''()=>123''
                   [fbranch ''parameters'' ''formal_parameters'' ''()'' [tok ''('', tok '')''],
                    tok ''=>'', fleaf ''body'' ''number'' ''123'']],
              tok '';''],
           tok ''}'']]"

text \<open>\<open>const greet=(name)=>{ hello(); return 123; }\<close>\<close>

definition greet_decl :: node where
  "greet_decl =
     branch ''lexical_declaration'' ''const greet=(name)=>{ hello(); return 123; }''
       [tok ''const'',
        branch ''variable_declarator'' ''greet=(name)=>{ hello(); return 123; }''
          [fleaf ''name'' ''identifier'' ''greet'', tok ''='',
           fbranch ''value'' ''arrow_function'' ''(name)=>{ hello(); return 123; }''
             [fbranch ''parameters'' ''formal_parameters'' ''(name)''
                [tok ''('', leaf ''identifier'' ''name'', tok '')''],
              tok ''=>'',
              fbranch ''body'' ''statement_block'' ''{ hello(); return 123; }''
                [tok ''{'',
                 branch ''expression_statement'' ''hello();''
                   [branch ''call_expression'' ''hello()''
                      [fleaf ''function'' ''identifier'' ''hello'',
                       fbranch ''arguments'' ''arguments'' ''()'' [tok ''('', tok '')'']],
                    tok '';''],
                 branch ''return_statement'' ''return 123;''
                   [tok ''return'', leaf ''number'' ''123'', tok '';''],
                 tok ''}'']]]]"

definition scenario_program :: node where
  "scenario_program =
     branch ''program''
       ''async function hello(){ const foo=()=>123; } const greet=(name)=>{ hello(); return 123; }''
       [hello_decl, greet_decl]"

text \<open>\<open>const f = function() { function inner() {} }\<close>\<close>

definition inner_program :: node where
  "inner_program =
     branch ''program'' ''const f = function() { function inner() {} }''
       [branch ''lexical_declaration'' ''const f = function() { function inner() {} }''
          [tok ''const'',
           branch ''variable_declarator'' ''f = function() { function inner() {} }''
             [fleaf ''name'' ''identifier'' ''f'', tok ''='',
              fbranch ''value'' ''function'' ''function() { function inner() {} }''
                [tok ''function'',
                 fbranch ''parameters'' ''formal_parameters'' ''()'' [tok ''('', tok '')''],
                 fbranch ''body'' ''statement_block'' ''{ function inner() {} }''
                   [tok ''{'',
                    branch ''function_declaration'' ''function inner() {}''
                      [tok ''function'', fleaf ''name'' ''identifier'' ''inner'',
                       fbranch ''parameters'' ''formal_parameters'' ''()'' [tok ''('', tok '')''],
                       fbranch ''body'' ''statement_block'' ''{}'' [tok ''{'', tok ''}'']],
                    tok ''}'']]]]]"

text \<open>\<open>function f() { console.error(1); }\<close>\<close>

definition console_error_decl :: node where
  "console_error_decl =
     branch ''function_declaration'' ''function f() { console.error(1); }''
       [tok ''function'', fleaf ''name'' ''identifier'' ''f'',
        fbranch ''parameters'' ''formal_parameters'' ''()'' [tok ''('', tok '')''],
        fbranch ''body'' ''statement_block'' ''{ console.error(1); }''
          [tok ''{'',
           branch ''expression_statement'' ''console.error(1);''
             [branch ''call_expression'' ''console.error(1)''
                [fbranch ''function'' ''member_expression'' ''console.error''
                   [fleaf ''object'' ''identifier'' ''console'', tok ''.'',
                    fleaf ''property'' ''property_identifier'' ''error''],
                 fbranch ''arguments'' ''arguments'' ''(1)''
                   [tok ''('', leaf ''number'' ''1'', tok '')'']],
              tok '';''],
           tok ''}'']]"






text \<open>\<open>class A { m() { class B {} } k() {} }\<close>\<close>

definition nested_class_program :: node where
  "nested_class_program =
     branch ''program'' ''class A { m() { class B {} } k() {} }''
       [branch ''class_declaration'' ''class A { m() { class B {} } k() {} }''
          [tok ''class'', fleaf ''name'' ''identifier'' ''A'',
           fbranch ''body'' ''class_body'' ''{ m() { class B {} } k() {} }''
             [tok ''{'',
              fbranch ''member'' ''method_definition'' ''m() { class B {} }''
                [fleaf ''name'' ''property_identifier'' ''m'',
                 fbranch ''parameters'' ''formal_parameters'' ''()'' [tok ''('', tok '')''],
                 fbranch ''body'' ''statement_block'' ''{ class B {} }''
                   [tok ''{'',
                    branch ''class_declaration'' ''class B {}''
                      [tok ''class'', fleaf ''name'' ''identifier'' ''B'',
                       fbranch ''body'' ''class_body'' ''{}'' [tok ''{'', tok ''}'']],
                    tok ''}'']],
              fbranch ''member'' ''method_definition'' ''k() {}''
                [fleaf ''name'' ''property_identifier'' ''k'',
                 fbranch ''parameters'' ''formal_parameters'' ''()'' [tok ''('', tok '')''],
                 fbranch ''body'' ''statement_block'' ''{}'' [tok ''{'', tok ''}'']],
              tok ''}'']]]"

text \<open>A call \<open>f()\<close> of a plain identifier, as a statement.\<close>

abbreviation call_stmt :: "string \<Rightarrow> node" where
  "call_stmt f \<equiv>
     branch ''expression_statement'' (f @ ''();'')
       [branch ''call_expression'' (f @ ''()'')
          [fleaf ''function'' ''identifier'' f,
           fbranch ''arguments'' ''arguments'' ''()'' [tok ''('', tok '')'']],
        tok '';'']"

text \<open>\<open>function f() { hello(); greet(); hello(); }\<close>\<close>

definition twice_decl :: node where
  "twice_decl =
     branch ''function_declaration'' ''function f() { hello(); greet(); hello(); }''
       [tok ''function'', fleaf ''name'' ''identifier'' ''f'',
        fbranch ''parameters'' ''formal_parameters'' ''()'' [tok ''('', tok '')''],
        fbranch ''body'' ''statement_block'' ''{ hello(); greet(); hello(); }''
          [tok ''{'', call_stmt ''hello'', call_stmt ''greet'', call_stmt ''hello'', tok ''}'']]"

text \<open>A class declaration that lost its name: \<open>class {}\<close> with no identifier child.\<close>

definition nameless_class :: node where
  "nameless_class =
     branch ''class_declaration'' ''class {}''
       [tok ''class'', fbranch ''body'' ''class_body'' ''{}'' [tok ''{'', tok ''}'']]"

text \<open>\<open>function outer() { function inner() { helper(); } }\<close>\<close>

definition helper_call :: node where
  "helper_call =
     branch ''call_expression'' ''helper()''
       [fleaf ''function'' ''identifier'' ''helper'',
        fbranch ''arguments'' ''arguments'' ''()'' [tok ''('', tok '')'']]"

definition outer_decl :: node where
  "outer_decl =
     branch ''function_declaration'' ''function outer() { function inner() { helper(); } }''
       [tok ''function'', fleaf ''name'' ''identifier'' ''outer'',
        fbranch ''parameters'' ''formal_parameters'' ''()'' [tok ''('', tok '')''],
        fbranch ''body'' ''statement_block'' ''{ function inner() { helper(); } }''
          [tok ''{'',
           branch ''function_declaration'' ''function inner() { helper(); }''
             [tok ''function'', fleaf ''name'' ''identifier'' ''inner'',
              fbranch ''parameters'' ''formal_parameters'' ''()'' [tok ''('', tok '')''],
              fbranch ''body'' ''statement_block'' ''{ helper(); }''
                [tok ''{'',
                 branch ''expression_statement'' ''helper();'' [helper_call, tok '';''],
                 tok ''}'']],
           tok ''}'']]"

text \<open>\<open>const f = x => x;\<close>: the arrow function has a \<open>parameter\<close>, no \<open>formal_parameters\<close>.\<close>

definition bare_arrow :: node where
  "bare_arrow =
     fbranch ''value'' ''arrow_function'' ''x => x''
       [fleaf ''parameter'' ''identifier'' ''x'', tok ''=>'', fleaf ''body'' ''identifier'' ''x'']"

definition bare_declarator :: node where
  "bare_declarator =
     branch ''variable_declarator'' ''f = x => x''
       [fleaf ''name'' ''identifier'' ''f'', tok ''='', bare_arrow]"

definition bare_arrow_decl :: node where
  "bare_arrow_decl =
     branch ''lexical_declaration'' ''const f = x => x;''
       [tok ''const'', bare_declarator, tok '';'']"

definition bare_arrow_program :: node where
  "bare_arrow_program = branch ''program'' ''const f = x => x;'' [bare_arrow_decl]"

definition twice_program :: node where
  "twice_program = branch ''program'' ''function f() { hello(); greet(); hello(); }'' [twice_decl]"

definition console_error_program :: node where
  "console_error_program = branch ''program'' ''function f() { console.error(1); }'' [console_error_decl]"




definition outer_program :: node where
  "outer_program =
     branch ''program'' ''function outer() { function inner() { helper(); } }'' [outer_decl]"

section \<open>Facts about lists\<close>



lemma removeAll_filter: "removeAll x (filter P xs) = filter (\<lambda>y. P y \<and> y \<noteq> x) xs"
  by (induction xs) auto

lemma set_dedup_first: "set (dedup_first xs) = set xs"
  by (induction xs rule: dedup_first.induct) auto

lemma distinct_dedup_first: "distinct (dedup_first xs)"
  by (induction xs rule: dedup_first.induct) (auto simp: set_dedup_first)

text \<open>\<open>dedup_first\<close> in terms of the library: \<open>remdups\<close> keeps last occurrences.\<close>

lemma remdups_snoc: "remdups (ys @ [x]) = remdups (removeAll x ys) @ [x]"
  by (induction ys) auto

lemma dedup_first_remdups: "dedup_first xs = rev (remdups (rev xs))"
proof (induction xs rule: dedup_first.induct)
  case 1
  show ?case by simp
next
  case (2 x xs)
  have "rev (remdups (rev (x # xs))) = x # rev (remdups (removeAll x (rev xs)))"
    by (simp add: remdups_snoc)
  also have "removeAll x (rev xs) = rev (removeAll x xs)"
    by (simp add: removeAll_filter_not_eq rev_filter)
  finally show ?case using "2.IH" by simp
qed

text \<open>Adding the elements of a list to a set, one after the other, keeps first occurrences.\<close>

lemma fold_set_add:
  "fold set_add names acc = acc @ dedup_first (filter (\<lambda>x. x \<notin> set acc) names)"
proof (induction names arbitrary: acc)
  case Nil
  show ?case by simp
next
  case (Cons x xs)
  show ?case
  proof (cases "x \<in> set acc")
    case True
    then have "set_add x acc = acc" by (simp add: set_add_def)
    with True show ?thesis by (simp add: Cons.IH)
  next
    case False
    then have step: "set_add x acc = acc @ [x]" by (simp add: set_add_def)
    have "filter (\<lambda>y. y \<notin> set (acc @ [x])) xs = removeAll x (filter (\<lambda>y. y \<notin> set acc) xs)"
      by (simp add: removeAll_filter conj_commute)
    with False step show ?thesis by (simp add: Cons.IH)
  qed
qed

lemma error_is_TypeError: "(e::error) = TypeError"
  by (cases e) simp

section \<open>The end-to-end scenario\<close>

text \<open>
  Claim C8. On the program made of \<open>async function hello(){ const foo=()=>123; }\<close> and
  \<open>const greet=(name)=>{ hello(); return 123; }\<close>, \<open>analyzeFunctions\<close> returns exactly two
  records: \<open>hello\<close> with return type \<open>Promise<void>\<close> and no list of calls (the inner
  \<open>foo\<close> gives no record), then \<open>greet\<close> with return type \<open>number\<close> and the calls
  \<open>[hello]\<close>.
\<close>

theorem scenario_two_records:
  "analyzeFunctions scenario_program = Inr
     [\<lparr>name = ''hello'', parameters = ''()'', returnType = ''Promise<void>'',
       class_name = None, call = None\<rparr>,
      \<lparr>name = ''greet'', parameters = ''(name)'', returnType = ''number'',
       class_name = None, call = Some [''hello'']\<rparr>]"
  by code_simp

section \<open>Return-type inference\<close>


text \<open>The return type of a record is the one inferred for its function node.\<close>

lemma record_return_type:
  assumes "function_details ancs fn nm isArrow cls = Inr (Some r)"
  shows "returnType r =
    determineReturnType fn (\<exists>child \<in> set (children fn). ntype child = ''async'') isArrow"
proof (cases "extractCalledFunctions fn cls")
  case (Inl e)
  with assms show ?thesis
    by (simp add: function_details_def split: if_splits sum.splits)
next
  case (Inr calls)
  with assms show ?thesis
    by (simp add: function_details_def split: if_splits sum.splits) auto
qed



section \<open>The traversal for calls\<close>

lemma visit_all_append:
  "visit_all (xs @ ys) st =
     (case visit_all xs st of Inl e \<Rightarrow> Inl e | Inr st' \<Rightarrow> visit_all ys st')"
  by (induction xs arbitrary: st) (auto split: sum.splits)

text \<open>\<open>traverseForCalls\<close> visits the nodes of the subtree in pre-order.\<close>

lemma traverseForCalls_visit_all:
  "traverseForCalls n st = visit_all (preorder n) st"
  "traverseForCalls_children ns st = visit_all (preorder_children ns) st"
  by (induction n st and ns st rule: traverseForCalls_traverseForCalls_children.induct)
     (auto simp: visit_all_append split: sum.splits)

lemma visit_declarator:
  "ntype n = ''variable_declarator'' \<Longrightarrow>
   visit_for_calls n st = Inr (st\<lparr>classInstances := aliases_from (classInstances st) [n]\<rparr>)"
  by (auto simp: visit_for_calls_def binds_def split: option.splits)

lemma binds_declarator_only: "ntype n \<noteq> ''variable_declarator'' \<Longrightarrow> binds n = None"
  by (simp add: binds_def)


text \<open>
  The state after the visits: the set of called functions has received the names of the
  calls in their order, the table of instances the aliases of the declarators.
\<close>

lemma visit_all_names:
  "visit_all ns st =
     (case names_in_order (classInstances st) ns of
        Inl e \<Rightarrow> Inl e
      | Inr names \<Rightarrow>
          Inr (st\<lparr>calledFunctions := fold set_add names (calledFunctions st),
                  classInstances := aliases_from (classInstances st) ns\<rparr>))"
proof (induction ns arbitrary: st)
  case Nil
  show ?case by simp
next
  case (Cons n ns)
  show ?case
  proof (cases "ntype n = ''variable_declarator''")
    case True
    then show ?thesis
      by (simp add: visit_declarator Cons.IH split: sum.splits)
  next
    case notdecl: False
    show ?thesis
    proof (cases "ntype n = ''call_expression''")
      case True
      then show ?thesis
        using notdecl
        by (auto simp: visit_for_calls_def Cons.IH binds_declarator_only error_is_TypeError
            split: sum.splits)
    next
      case False
      then show ?thesis
        using notdecl
        by (simp add: visit_for_calls_def Cons.IH binds_declarator_only split: sum.splits)
    qed
  qed
qed

lemma extractCalledFunctions_names:
  "extractCalledFunctions node cls =
     (case names_in_order Map.empty (preorder node) of
        Inl e \<Rightarrow> Inl e
      | Inr names \<Rightarrow> Inr (dedup_first names))"
  by (simp add: extractCalledFunctions_def traverseForCalls_visit_all visit_all_names
      fold_set_add split: sum.splits)

text \<open>Every call expression among the visited nodes contributes its name.\<close>

lemma names_in_order_call:
  "names_in_order A (pre @ c # post) = Inr names \<Longrightarrow> ntype c = ''call_expression'' \<Longrightarrow>
   \<exists>nm. called_name (aliases_from A pre) c = Inr nm \<and> (nm = ''console.log'' \<or> nm \<in> set names)"
proof (induction pre arbitrary: A names)
  case Nil
  then show ?case by (auto split: sum.splits if_splits)
next
  case (Cons n pre)
  show ?case
  proof (cases "ntype n = ''variable_declarator''")
    case True
    with Cons.prems have "names_in_order (aliases_from A [n]) (pre @ c # post) = Inr names"
      by simp
    from Cons.IH [OF this Cons.prems(2)] show ?thesis by simp
  next
    case notdecl: False
    then have same: "aliases_from A (n # pre) = aliases_from A pre"
      by (simp add: binds_declarator_only)
    show ?thesis
    proof (cases "ntype n = ''call_expression''")
      case True
      with Cons.prems notdecl have
        "\<exists>rest. names_in_order A (pre @ c # post) = Inr rest \<and> set rest \<subseteq> set names"
        by (auto split: sum.splits if_splits)
      then obtain rest where
        rest: "names_in_order A (pre @ c # post) = Inr rest" and sub: "set rest \<subseteq> set names"
        by blast
      from Cons.IH [OF rest Cons.prems(2)] sub same show ?thesis by auto
    next
      case False
      with Cons.prems notdecl have "names_in_order A (pre @ c # post) = Inr names" by simp
      from Cons.IH [OF this Cons.prems(2)] same show ?thesis by simp
    qed
  qed
qed





lemma function_details_calls:
  assumes "function_details ancs fn nm isArrow cls = Inr (Some r)"
  shows "\<exists>calls. extractCalledFunctions fn cls = Inr calls \<and>
     call r = (if calls = [] then None else Some calls)"
proof (cases "extractCalledFunctions fn cls")
  case (Inl e)
  with assms show ?thesis
    by (simp add: function_details_def split: if_splits sum.splits)
next
  case (Inr calls)
  with assms have "call r = (if calls = [] then None else Some calls)"
    by (simp add: function_details_def split: if_splits sum.splits) auto
  with Inr show ?thesis by simp
qed

lemma call_name_recorded:
  assumes "extractCalledFunctions node cls = Inr calls"
    and "preorder node = pre @ c # post"
    and "ntype c = ''call_expression''"
  shows "\<exists>nm. called_name (aliases_of pre) c = Inr nm \<and> (nm = ''console.log'' \<or> nm \<in> set calls)"
proof -
  from assms(1) obtain names where
    names: "names_in_order Map.empty (preorder node) = Inr names" and calls: "calls = dedup_first names"
    by (auto simp: extractCalledFunctions_names split: sum.splits)
  from names assms(2) have "names_in_order Map.empty (pre @ c # post) = Inr names" by simp
  from names_in_order_call [OF this assms(3)] calls show ?thesis
    by (simp add: aliases_of_def set_dedup_first)
qed

text \<open>
  Claim C9. \<open>extractCalledFunctions\<close> walks the whole subtree of the function it is given,
  bodies of inner functions included: every call expression of the subtree, at any depth,
  is resolved against the aliases seen before it, and its name is in the list of calls of
  the record of the enclosing function (the name \<open>console.log\<close> apart, which is never
  recorded).
\<close>

theorem nested_calls_attributed:
  assumes "function_details ancestors functionNode nm isArrow cls = Inr (Some r)"
    and "preorder functionNode = pre @ c # post"
    and "ntype c = ''call_expression''"
  shows "\<exists>called. called_name (aliases_of pre) c = Inr called \<and>
    (called = ''console.log'' \<or> (\<exists>cs. call r = Some cs \<and> called \<in> set cs))"
proof -
  from function_details_calls [OF assms(1)] obtain calls where
    ex: "extractCalledFunctions functionNode cls = Inr calls" and
    r: "call r = (if calls = [] then None else Some calls)"
    by blast
  from call_name_recorded [OF ex assms(2,3)] obtain called where
    called: "called_name (aliases_of pre) c = Inr called" and
    listed: "called = ''console.log'' \<or> called \<in> set calls"
    by blast
  show ?thesis
  proof (cases "called = ''console.log''")
    case True
    with called show ?thesis by blast
  next
    case False
    with listed have "called \<in> set calls" by simp
    moreover from this r have "call r = Some calls" by auto
    ultimately show ?thesis using called by blast
  qed
qed

text \<open>
  In \<open>function outer() { function inner() { helper(); } }\<close> the call of \<open>helper\<close> stands
  in the body of \<open>inner\<close> and is listed among the calls of \<open>outer\<close>.
\<close>

theorem nested_calls_attributed_witness:
  "analyzeFunctions outer_program = Inr
     [\<lparr>name = ''outer'', parameters = ''()'', returnType = ''void'', class_name = None,
       call = Some [''helper'']\<rparr>] \<and>
   called_name (aliases_of (take 17 (preorder outer_decl))) helper_call = Inr ''helper'' \<and>
   (\<exists>called. called_name (aliases_of (take 17 (preorder outer_decl))) helper_call = Inr called \<and>
      (called = ''console.log'' \<or> (\<exists>cs. Some [''helper''] = Some cs \<and> called \<in> set cs)))"
proof -
  let ?r = "\<lparr>name = ''outer'', parameters = ''()'', returnType = ''void'', class_name = None,
             call = Some [''helper'']\<rparr>"
  have run: "analyzeFunctions outer_program = Inr [?r]"
    by code_simp
  have details: "function_details [outer_program] outer_decl ''outer'' False None = Inr (Some ?r)"
    by code_simp
  have parts: "preorder outer_decl =
      take 17 (preorder outer_decl) @ helper_call # drop 18 (preorder outer_decl)"
    by code_simp
  have ty: "ntype helper_call = ''call_expression''"
    by (simp add: helper_call_def)
  have nm: "called_name (aliases_of (take 17 (preorder outer_decl))) helper_call = Inr ''helper''"
    by code_simp
  from nested_calls_attributed [OF details parts ty] run nm show ?thesis by simp
qed






section \<open>Where the records come from\<close>

lemma find_in_set: "find P xs = Some x \<Longrightarrow> x \<in> set xs"
  by (induction xs) (auto split: if_splits)

lemma preorder_self: "n \<in> set (preorder n)"
  by (cases n) simp

lemma preorder_children_mem:
  "c \<in> set cs \<Longrightarrow> set (preorder c) \<subseteq> set (preorder_children cs)"
  by (induction cs) auto

lemma preorder_child: "c \<in> set (children n) \<Longrightarrow> set (preorder c) \<subseteq> set (preorder n)"
  using preorder_children_mem by (cases n) auto

lemma preorder_trans:
  "m \<in> set (preorder n) \<Longrightarrow> set (preorder m) \<subseteq> set (preorder n)"
  "m \<in> set (preorder_children ns) \<Longrightarrow> set (preorder m) \<subseteq> set (preorder_children ns)"
  by (induction n and ns rule: preorder_preorder_children.induct) auto

lemma extractFunctionInfo_calls:
  assumes "extractFunctionInfo ancs node cls = Some r"
  shows "\<exists>fn \<in> set (preorder node). \<exists>calls. extractCalledFunctions fn cls = Inr calls \<and>
     call r = (if calls = [] then None else Some calls)"
proof -
  from assms have attempt: "extractFunctionInfo_try ancs node cls = Inr (Some r)"
    by (simp add: extractFunctionInfo_def split: sum.splits)
  then consider
    (self) nm where "function_details ancs node nm False cls = Inr (Some r)"
  | (val) d v nm where "find_type ''variable_declarator'' (children node) = Some d"
      "find (\<lambda>child. ntype child = ''arrow_function'' \<or> ntype child = ''function'') (children d) = Some v"
      "function_details ancs v nm (ntype v = ''arrow_function'') cls = Inr (Some r)"
    by (auto simp: extractFunctionInfo_try_def split: if_splits sum.splits option.splits)
  then show ?thesis
  proof cases
    case self
    from function_details_calls [OF this] preorder_self [of node] show ?thesis by blast
  next
    case val
    from val(1) have "d \<in> set (children node)"
      by (auto simp: find_type_def dest: find_in_set)
    moreover from val(2) have "v \<in> set (children d)"
      by (rule find_in_set)
    ultimately have "v \<in> set (preorder node)"
      using preorder_child preorder_self by blast
    with function_details_calls [OF val(3)] show ?thesis by blast
  qed
qed

lemma enter_node_records:
  "enter_node ancs n st = Inr st' \<Longrightarrow> r \<in> set (functions_out st') \<Longrightarrow>
   r \<in> set (functions_out st) \<or> (\<exists>cls. extractFunctionInfo ancs n cls = Some r)"
  by (auto simp: enter_node_def split: if_splits sum.splits option.splits)

lemma leave_node_records: "functions_out (leave_node n st) = functions_out st"
  by (simp add: leave_node_def)

lemma traverse_records:
  "traverse ancs n st = Inr st' \<Longrightarrow> r \<in> set (functions_out st') \<Longrightarrow>
   r \<in> set (functions_out st) \<or>
   (\<exists>m \<in> set (preorder n). \<exists>a cls. extractFunctionInfo a m cls = Some r)"
  "traverse_children ancs ns st = Inr st' \<Longrightarrow> r \<in> set (functions_out st') \<Longrightarrow>
   r \<in> set (functions_out st) \<or>
   (\<exists>m \<in> set (preorder_children ns). \<exists>a cls. extractFunctionInfo a m cls = Some r)"
proof (induction ancs n st and ancs ns st arbitrary: st' and st'
    rule: traverse_traverse_children.induct)
  case (1 ancestors ty tx fl sp ep cs st)
  let ?n = "Node ty tx fl sp ep cs"
  from "1.prems"(1) obtain st1 st2 where
    enter: "enter_node ancestors ?n st = Inr st1" and
    kids: "traverse_children (?n # ancestors) cs st1 = Inr st2" and
    leave: "st' = leave_node ?n st2"
    by (auto split: sum.splits)
  from "1.prems"(2) leave have "r \<in> set (functions_out st2)"
    by (simp add: leave_node_records)
  from "1.IH" [OF enter kids this]
  consider "r \<in> set (functions_out st1)"
    | "\<exists>m \<in> set (preorder_children cs). \<exists>a cls. extractFunctionInfo a m cls = Some r"
    by blast
  then show ?case
  proof cases
    case 1
    from enter_node_records [OF enter this] show ?thesis
      by (auto intro: exI [of _ ancestors])
  next
    case 2
    then show ?thesis by auto
  qed
next
  case (2 ancestors st)
  then show ?case by simp
next
  case (3 ancestors child cs st)
  from "3.prems"(1) obtain st1 where
    first: "traverse ancestors child st = Inr st1" and
    rest: "traverse_children ancestors cs st1 = Inr st'"
    by (auto split: sum.splits)
  from "3.IH"(2) [OF first rest "3.prems"(2)] "3.IH"(1) [OF first]
  show ?case by auto
qed

lemma analyzeFunctions_records:
  assumes "analyzeFunctions rootNode = Inr fs" "r \<in> set fs"
  shows "\<exists>fn \<in> set (preorder rootNode). \<exists>cls calls. extractCalledFunctions fn cls = Inr calls \<and>
     call r = (if calls = [] then None else Some calls)"
proof -
  from assms obtain st where
    st: "traverse [] rootNode \<lparr>functions_out = [], currentClass = None\<rparr> = Inr st"
    and r: "r \<in> set (functions_out st)"
    by (auto simp: analyzeFunctions_def split: sum.splits)
  from traverse_records(1) [OF st r] obtain m a cls where
    m: "m \<in> set (preorder rootNode)" and info: "extractFunctionInfo a m cls = Some r"
    by auto
  from extractFunctionInfo_calls [OF info] obtain fn calls where
    "fn \<in> set (preorder m)" "extractCalledFunctions fn cls = Inr calls"
    "call r = (if calls = [] then None else Some calls)"
    by blast
  moreover from m have "set (preorder m) \<subseteq> set (preorder rootNode)"
    by (rule preorder_trans)
  ultimately show ?thesis by blast
qed

section \<open>The list of calls of a record\<close>

text \<open>
  Claim C6. The list of calls of every record is free of duplicates and in the order of
  first occurrence: take the names of the calls met in pre-order in the subtree of the
  record's own function node, with repetitions; the record lists each of them once, at
  the place of its first occurrence, and has no list of calls when there is none.
\<close>

theorem calls_deduplicated_in_first_occurrence_order:
  assumes "function_details ancestors functionNode nm isArrow cls = Inr (Some r)"
  shows "\<exists>names. names_in_order Map.empty (preorder functionNode) = Inr names \<and>
    call r = (if dedup_first names = [] then None else Some (dedup_first names)) \<and>
    distinct (dedup_first names) \<and> set (dedup_first names) = set names"
proof -
  from function_details_calls [OF assms] obtain calls where
    ex: "extractCalledFunctions functionNode cls = Inr calls" and
    r: "call r = (if calls = [] then None else Some calls)"
    by blast
  from ex obtain names where
    names: "names_in_order Map.empty (preorder functionNode) = Inr names" and
    calls: "calls = dedup_first names"
    by (auto simp: extractCalledFunctions_names split: sum.splits)
  from r calls have "call r = (if dedup_first names = [] then None else Some (dedup_first names))"
    by simp
  with names show ?thesis
    using distinct_dedup_first [of names] set_dedup_first [of names] by blast
qed

text \<open>
  \<open>function f() { hello(); greet(); hello(); }\<close>: the calls met are \<open>hello\<close>, \<open>greet\<close>,
  \<open>hello\<close>; the record lists \<open>hello\<close>, \<open>greet\<close>.
\<close>

theorem calls_deduplicated_witness:
  "function_details [twice_program] twice_decl ''f'' False None = Inr (Some
     \<lparr>name = ''f'', parameters = ''()'', returnType = ''void'', class_name = None,
      call = Some [''hello'', ''greet'']\<rparr>) \<and>
   names_in_order Map.empty (preorder twice_decl) = Inr [''hello'', ''greet'', ''hello''] \<and>
   dedup_first [''hello'', ''greet'', ''hello''] = [''hello'', ''greet''] \<and>
   (\<exists>names. names_in_order Map.empty (preorder twice_decl) = Inr names \<and>
      Some [''hello'', ''greet''] =
        (if dedup_first names = [] then None else Some (dedup_first names)) \<and>
      distinct (dedup_first names) \<and> set (dedup_first names) = set names)"
proof -
  let ?r = "\<lparr>name = ''f'', parameters = ''()'', returnType = ''void'', class_name = None,
             call = Some [''hello'', ''greet'']\<rparr>"
  have details: "function_details [twice_program] twice_decl ''f'' False None = Inr (Some ?r)"
    by code_simp
  have names: "names_in_order Map.empty (preorder twice_decl) = Inr [''hello'', ''greet'', ''hello'']"
    by code_simp
  have dd: "dedup_first [''hello'', ''greet'', ''hello''] = [''hello'', ''greet'']"
    by simp
  from calls_deduplicated_in_first_occurrence_order [OF details] details names dd
  show ?thesis by simp
qed

section \<open>Calls on the console\<close>

lemma names_in_order_no_console_log:
  "names_in_order A ns = Inr names \<Longrightarrow> ''console.log'' \<notin> set names"
proof (induction ns arbitrary: A names)
  case Nil
  then show ?case by simp
next
  case (Cons n ns)
  show ?case
  proof (cases "ntype n = ''variable_declarator''")
    case True
    with Cons.prems have "names_in_order (aliases_from A [n]) ns = Inr names" by simp
    then show ?thesis by (rule Cons.IH)
  next
    case notdecl: False
    show ?thesis
    proof (cases "ntype n = ''call_expression''")
      case True
      from Cons.prems notdecl True obtain nm where nm: "called_name A n = Inr nm"
        by (cases "called_name A n") simp_all
      from Cons.prems notdecl True nm obtain rest where rest: "names_in_order A ns = Inr rest"
        by (cases "names_in_order A ns") simp_all
      from Cons.prems notdecl True nm rest
      have names: "names = (if nm = ''console.log'' then rest else nm # rest)"
        by simp
      from Cons.IH [OF rest] names show ?thesis by (simp split: if_splits)
    next
      case False
      with Cons.prems notdecl have "names_in_order A ns = Inr names" by simp
      then show ?thesis by (rule Cons.IH)
    qed
  qed
qed

lemma extractCalledFunctions_no_console_log:
  "extractCalledFunctions node cls = Inr calls \<Longrightarrow> ''console.log'' \<notin> set calls"
  by (auto simp: extractCalledFunctions_names set_dedup_first split: sum.splits
      dest: names_in_order_no_console_log)

lemma called_name_console:
  assumes "called_name A c = Inr nm" and "at_index (children c) 0 = Some callee"
    and "ntype callee = ''member_expression''" and "at_index (children callee) 0 = Some obj"
    and "ntext obj = ''console''"
  shows "nm = ntext callee"
  using assms by (simp add: called_name_def split: option.splits)

text \<open>
  Claim C2, as the code has it. No list of calls of an emitted record contains
  \<open>console.log\<close>. A call whose callee is a member access with the object \<open>console\<close> is
  recorded under the text of the callee, unless that text is \<open>console.log\<close>: calls such
  as \<open>console.error\<close> are recorded.
\<close>

theorem only_console_log_excluded:
  "(analyzeFunctions rootNode = Inr fs \<and> r \<in> set fs \<and> call r = Some cs \<longrightarrow>
      ''console.log'' \<notin> set cs) \<and>
   (extractCalledFunctions node cls = Inr calls \<and> preorder node = pre @ c # post \<and>
    ntype c = ''call_expression'' \<and> at_index (children c) 0 = Some callee \<and>
    ntype callee = ''member_expression'' \<and> at_index (children callee) 0 = Some obj \<and>
    ntext obj = ''console'' \<longrightarrow>
      ntext callee = ''console.log'' \<or> ntext callee \<in> set calls)"
proof (intro conjI impI; elim conjE)
  assume run: "analyzeFunctions rootNode = Inr fs" and r: "r \<in> set fs" and cs: "call r = Some cs"
  from analyzeFunctions_records [OF run r] obtain fn k calls where
    ex: "extractCalledFunctions fn k = Inr calls"
    and "call r = (if calls = [] then None else Some calls)"
    by blast
  with cs have "cs = calls" by (simp split: if_splits)
  with extractCalledFunctions_no_console_log [OF ex] show "''console.log'' \<notin> set cs" by simp
next
  assume ex: "extractCalledFunctions node cls = Inr calls"
    and at: "preorder node = pre @ c # post" and c: "ntype c = ''call_expression''"
    and callee: "at_index (children c) 0 = Some callee" "ntype callee = ''member_expression''"
    and obj: "at_index (children callee) 0 = Some obj" "ntext obj = ''console''"
  from call_name_recorded [OF ex at c] obtain nm where
    nm: "called_name (aliases_of pre) c = Inr nm" and rec: "nm = ''console.log'' \<or> nm \<in> set calls"
    by blast
  from called_name_console [OF nm callee obj] rec
  show "ntext callee = ''console.log'' \<or> ntext callee \<in> set calls" by simp
qed

text \<open>
  The claim as stated, that no \<open>console.*\<close> entry is ever recorded, fails on
  \<open>function f() { console.error(1); }\<close>.
\<close>

theorem console_error_is_recorded:
  "analyzeFunctions console_error_program = Inr
     [\<lparr>name = ''f'', parameters = ''()'', returnType = ''void'', class_name = None,
       call = Some [''console.error'']\<rparr>]"
  by code_simp

text \<open>
  On \<open>function f() { console.error(1); }\<close>: the record's calls hold no \<open>console.log\<close>,
  and the call on the console is recorded under the text of its callee.
\<close>

theorem only_console_log_excluded_witness:
  "analyzeFunctions console_error_program = Inr
     [\<lparr>name = ''f'', parameters = ''()'', returnType = ''void'', class_name = None,
       call = Some [''console.error'']\<rparr>] \<and>
   ''console.log'' \<notin> set [''console.error''] \<and>
   extractCalledFunctions console_error_decl None = Inr [''console.error''] \<and>
   (ntext (children (preorder console_error_decl ! 9) ! 0) = ''console.log'' \<or>
    ntext (children (preorder console_error_decl ! 9) ! 0) \<in> set [''console.error''])"
proof -
  let ?r = "\<lparr>name = ''f'', parameters = ''()'', returnType = ''void'', class_name = None,
             call = Some [''console.error'']\<rparr>"
  let ?nodes = "preorder console_error_decl"
  let ?c = "?nodes ! 9"
  let ?callee = "children ?c ! 0"
  let ?obj = "children ?callee ! 0"
  have run: "analyzeFunctions console_error_program = Inr [?r]"
    by code_simp
  have mem: "?r \<in> set [?r]" by simp
  have cs: "call ?r = Some [''console.error'']" by simp
  have ex: "extractCalledFunctions console_error_decl None = Inr [''console.error'']"
    by code_simp
  have at: "?nodes = take 9 ?nodes @ ?c # drop 10 ?nodes"
    by code_simp
  have c: "ntype ?c = ''call_expression''"
    by code_simp
  have callee: "at_index (children ?c) 0 = Some ?callee"
    by code_simp
  have member: "ntype ?callee = ''member_expression''"
    by code_simp
  have obj: "at_index (children ?callee) 0 = Some ?obj"
    by code_simp
  have console: "ntext ?obj = ''console''"
    by code_simp
  note both = only_console_log_excluded [where rootNode = console_error_program
      and fs = "[?r]" and r = ?r and cs = "[''console.error'']"
      and node = console_error_decl and cls = None and calls = "[''console.error'']"
      and pre = "take 9 ?nodes" and c = ?c and post = "drop 10 ?nodes"
      and callee = ?callee and obj = ?obj]
  note first = both [THEN conjunct1, THEN mp, OF conjI [OF run conjI [OF mem cs]]]
  note second = both [THEN conjunct2, THEN mp,
      OF conjI [OF ex conjI [OF at conjI [OF c conjI [OF callee conjI [OF member
        conjI [OF obj console]]]]]]]
  from run first ex second show ?thesis by (intro conjI)
qed

section \<open>Errors\<close>

lemma enter_node_ok:
  "ntype n \<noteq> ''class_declaration'' \<or> find_type ''identifier'' (children n) \<noteq> None \<Longrightarrow>
   \<exists>st'. enter_node ancs n st = Inr st'"
  by (auto simp: enter_node_def text_of_def split: option.splits)

lemma traverse_total:
  "list_all (\<lambda>n. ntype n \<noteq> ''class_declaration'' \<or> find_type ''identifier'' (children n) \<noteq> None)
     (preorder n) \<Longrightarrow> \<exists>st'. traverse ancs n st = Inr st'"
  "list_all (\<lambda>n. ntype n \<noteq> ''class_declaration'' \<or> find_type ''identifier'' (children n) \<noteq> None)
     (preorder_children ns) \<Longrightarrow> \<exists>st'. traverse_children ancs ns st = Inr st'"
proof (induction ancs n st and ancs ns st rule: traverse_traverse_children.induct)
  case (1 ancestors ty tx fl sp ep cs st)
  let ?n = "Node ty tx fl sp ep cs"
  from "1.prems" have here:
    "ntype ?n \<noteq> ''class_declaration'' \<or> find_type ''identifier'' (children ?n) \<noteq> None"
    and below: "list_all (\<lambda>n. ntype n \<noteq> ''class_declaration'' \<or>
        find_type ''identifier'' (children n) \<noteq> None) (preorder_children cs)"
    by simp_all
  from enter_node_ok [OF here] obtain st1 where enter: "enter_node ancestors ?n st = Inr st1"
    by blast
  from "1.IH" [OF enter below] obtain st2 where
    "traverse_children (?n # ancestors) cs st1 = Inr st2"
    by blast
  with enter show ?case by simp
next
  case (2 ancestors st)
  show ?case by simp
next
  case (3 ancestors child cs st)
  from "3.prems" have first: "list_all (\<lambda>n. ntype n \<noteq> ''class_declaration'' \<or>
        find_type ''identifier'' (children n) \<noteq> None) (preorder child)"
    and rest: "list_all (\<lambda>n. ntype n \<noteq> ''class_declaration'' \<or>
        find_type ''identifier'' (children n) \<noteq> None) (preorder_children cs)"
    by simp_all
  from "3.IH"(1) [OF first] obtain st1 where one: "traverse ancestors child st = Inr st1"
    by blast
  from "3.IH"(2) [OF one rest] obtain st2 where "traverse_children ancestors cs st1 = Inr st2"
    by blast
  with one show ?case by simp
qed

lemma enter_node_raises:
  "ntype n = ''class_declaration'' \<Longrightarrow> find_type ''identifier'' (children n) = None \<Longrightarrow>
   enter_node ancs n st = Inl TypeError"
  by (simp add: enter_node_def text_of_def)

lemma traverse_raises:
  "\<not> list_all (\<lambda>n. ntype n \<noteq> ''class_declaration'' \<or> find_type ''identifier'' (children n) \<noteq> None)
     (preorder n) \<Longrightarrow> traverse ancs n st = Inl TypeError"
  "\<not> list_all (\<lambda>n. ntype n \<noteq> ''class_declaration'' \<or> find_type ''identifier'' (children n) \<noteq> None)
     (preorder_children ns) \<Longrightarrow> traverse_children ancs ns st = Inl TypeError"
proof (induction ancs n st and ancs ns st rule: traverse_traverse_children.induct)
  case (1 ancestors ty tx fl sp ep cs st)
  let ?n = "Node ty tx fl sp ep cs"
  show ?case
  proof (cases "enter_node ancestors ?n st")
    case (Inl e)
    then show ?thesis by (simp add: error_is_TypeError)
  next
    case (Inr st1)
    have "ntype ?n \<noteq> ''class_declaration'' \<or> find_type ''identifier'' (children ?n) \<noteq> None"
    proof (rule ccontr)
      assume "\<not> ?thesis"
      then have "enter_node ancestors ?n st = Inl TypeError"
        by (intro enter_node_raises) simp_all
      with Inr show False by simp
    qed
    with "1.prems" have "\<not> list_all (\<lambda>n. ntype n \<noteq> ''class_declaration'' \<or>
        find_type ''identifier'' (children n) \<noteq> None) (preorder_children cs)"
      by auto
    from "1.IH" [OF Inr this] Inr show ?thesis by simp
  qed
next
  case (2 ancestors st)
  then show ?case by simp
next
  case (3 ancestors child cs st)
  show ?case
  proof (cases "traverse ancestors child st")
    case (Inl e)
    then show ?thesis by (simp add: error_is_TypeError)
  next
    case (Inr st1)
    with "3.IH"(1) have "list_all (\<lambda>n. ntype n \<noteq> ''class_declaration'' \<or>
        find_type ''identifier'' (children n) \<noteq> None) (preorder child)"
      by auto
    with "3.prems" have "\<not> list_all (\<lambda>n. ntype n \<noteq> ''class_declaration'' \<or>
        find_type ''identifier'' (children n) \<noteq> None) (preorder_children cs)"
      by auto
    from "3.IH"(2) [OF Inr this] Inr show ?thesis by simp
  qed
qed

lemma raises_when_class_nameless:
  "\<not> classes_named rootNode \<Longrightarrow> analyzeFunctions rootNode = Inl TypeError"
  by (simp add: classes_named_def analyzeFunctions_def traverse_raises(1))

text \<open>
  The name of a class declaration is read outside the \<open>try\<close> block: the run returns
  exactly on the trees whose class declarations have an identifier child, which the
  grammar of the parser makes mandatory.
\<close>

lemma returns_iff_classes_named:
  "(\<exists>fs. analyzeFunctions rootNode = Inr fs) \<longleftrightarrow> classes_named rootNode"
proof
  assume "\<exists>fs. analyzeFunctions rootNode = Inr fs"
  then obtain fs where ok: "analyzeFunctions rootNode = Inr fs" ..
  show "classes_named rootNode"
  proof (rule ccontr)
    assume "\<not> classes_named rootNode"
    then have "analyzeFunctions rootNode = Inl TypeError"
      by (rule raises_when_class_nameless)
    with ok show False by simp
  qed
next
  assume "classes_named rootNode"
  then obtain st where "traverse [] rootNode \<lparr>functions_out = [], currentClass = None\<rparr> = Inr st"
    unfolding classes_named_def using traverse_total(1) by blast
  then show "\<exists>fs. analyzeFunctions rootNode = Inr fs"
    by (simp add: analyzeFunctions_def)
qed

lemma nameless_class_raises:
  "analyzeFunctions nameless_class = Inl TypeError"
  by code_simp







text \<open>
  Claim C10. A lexical declaration that binds a named arrow function without a
  \<open>formal_parameters\<close> child (a single parameter written without parentheses) gives no
  record: the declaration is either nested, or reading the text of the parameters raises
  a TypeError inside \<open>extractFunctionInfo\<close>, which catches it and returns null; either
  way the declaration leaves the list of functions as it was.
\<close>

theorem bare_parameter_arrow_dropped:
  assumes "ntype node = ''lexical_declaration''"
    and "find_type ''variable_declarator'' (children node) = Some declarator"
    and "find (\<lambda>child. ntype child = ''arrow_function'' \<or> ntype child = ''function'')
           (children declarator) = Some val"
    and "ntype val = ''arrow_function''"
    and "find_type ''identifier'' (children declarator) = Some ident"
    and "find_type ''formal_parameters'' (children val) = None"
  shows "extractFunctionInfo ancestors node cls = None \<and>
         enter_node ancestors node st = Inr st \<and>
         (isNestedFunction ancestors \<or> extractFunctionInfo_try ancestors node cls = Inl TypeError)"
proof -
  have details: "function_details ancestors val (ntext ident) True k =
      (if isNestedFunction ancestors then Inr None else Inl TypeError)" for k
    using assms(6) by (simp add: function_details_def text_of_def)
  have attempt: "extractFunctionInfo_try ancestors node k =
      (if isNestedFunction ancestors then Inr None else Inl TypeError)" for k
    using assms(1-5) details by (simp add: extractFunctionInfo_try_def text_of_def)
  then have none: "extractFunctionInfo ancestors node k = None" for k
    by (simp add: extractFunctionInfo_def)
  with assms(1) have "enter_node ancestors node st = Inr st"
    by (simp add: enter_node_def)
  with none attempt show ?thesis by simp
qed

text \<open>\<open>const f = x => x;\<close> at top level: the lookup raises, and the program has no record.\<close>

theorem bare_parameter_arrow_dropped_witness:
  "extractFunctionInfo [bare_arrow_program] bare_arrow_decl None = None \<and>
   extractFunctionInfo_try [bare_arrow_program] bare_arrow_decl None = Inl TypeError \<and>
   analyzeFunctions bare_arrow_program = Inr []"
proof -
  have h: "ntype bare_arrow_decl = ''lexical_declaration''"
    "find_type ''variable_declarator'' (children bare_arrow_decl) = Some bare_declarator"
    "find (\<lambda>child. ntype child = ''arrow_function'' \<or> ntype child = ''function'')
           (children bare_declarator) = Some bare_arrow"
    "ntype bare_arrow = ''arrow_function''"
    "find_type ''identifier'' (children bare_declarator) = Some (fleaf ''name'' ''identifier'' ''f'')"
    "find_type ''formal_parameters'' (children bare_arrow) = None"
    by (simp_all add: bare_arrow_decl_def bare_declarator_def bare_arrow_def find_type_def)
  have top: "\<not> isNestedFunction [bare_arrow_program]"
    by (simp add: bare_arrow_program_def function_kind_def)
  have run: "analyzeFunctions bare_arrow_program = Inr []"
    by code_simp
  from bare_parameter_arrow_dropped [OF h, of "[bare_arrow_program]" None] top run
  show ?thesis by simp
qed

section \<open>Nested functions\<close>

text \<open>
  In \<open>analyzeFunctions\<close>, a node with a function, method, arrow function or function
  declaration among its ancestors gives no record, and neither does anything below it.
\<close>

lemma nested_details: "isNestedFunction ancs \<Longrightarrow> function_details ancs fn nm isArrow cls = Inr None"
  by (simp add: function_details_def)

lemma nested_no_info: "isNestedFunction ancs \<Longrightarrow> extractFunctionInfo ancs n cls = None"
  by (simp add: extractFunctionInfo_def extractFunctionInfo_try_def nested_details
      split: sum.splits option.splits)

lemma nested_enter:
  "isNestedFunction ancs \<Longrightarrow> enter_node ancs n st = Inr st' \<Longrightarrow>
   functions_out st' = functions_out st"
  by (auto simp: enter_node_def nested_no_info split: if_splits sum.splits)

lemma analyze_nothing_below_function:
  "isNestedFunction ancs \<Longrightarrow> traverse ancs n st = Inr st' \<Longrightarrow>
   functions_out st' = functions_out st"
  "isNestedFunction ancs \<Longrightarrow> traverse_children ancs ns st = Inr st' \<Longrightarrow>
   functions_out st' = functions_out st"
proof (induction ancs n st and ancs ns st arbitrary: st' and st'
    rule: traverse_traverse_children.induct)
  case (1 ancestors ty tx fl sp ep cs st)
  let ?n = "Node ty tx fl sp ep cs"
  from "1.prems"(2) obtain st1 st2 where
    enter: "enter_node ancestors ?n st = Inr st1" and
    kids: "traverse_children (?n # ancestors) cs st1 = Inr st2" and
    leave: "st' = leave_node ?n st2"
    by (auto split: sum.splits)
  from "1.prems"(1) have "isNestedFunction (?n # ancestors)" by simp
  from "1.IH" [OF enter this kids] nested_enter [OF "1.prems"(1) enter] leave
  show ?case by (simp add: leave_node_records)
next
  case (2 ancestors st)
  then show ?case by simp
next
  case (3 ancestors child cs st)
  from "3.prems"(2) obtain st1 where
    first: "traverse ancestors child st = Inr st1" and
    rest: "traverse_children ancestors cs st1 = Inr st'"
    by (auto split: sum.splits)
  from "3.IH"(1) [OF "3.prems"(1) first] "3.IH"(2) [OF first "3.prems"(1) rest]
  show ?case by simp
qed

lemma analyze_function_subtree:
  assumes "function_kind ty"
    and "traverse ancs (Node ty tx fl sp ep cs) st = Inr st'"
  shows "\<exists>st1. enter_node ancs (Node ty tx fl sp ep cs) st = Inr st1 \<and>
    functions_out st' = functions_out st1"
proof -
  let ?n = "Node ty tx fl sp ep cs"
  from assms(2) obtain st1 st2 where
    enter: "enter_node ancs ?n st = Inr st1" and
    kids: "traverse_children (?n # ancs) cs st1 = Inr st2" and
    leave: "st' = leave_node ?n st2"
    by (auto split: sum.splits)
  from assms(1) have "isNestedFunction (?n # ancs)" by simp
  from analyze_nothing_below_function(2) [OF this kids] enter leave show ?thesis
    by (simp add: leave_node_records)
qed

text \<open>
  In \<open>getFunctionDeclarations\<close>, nothing is pushed once \<open>insideFunction\<close> is set, and the
  flag is set below a function declaration, a method and an arrow function; a function
  expression (type \<open>function\<close>) does not set it.
\<close>

lemma declarations_nothing_inside_function:
  "traverseTree p n c True acc = Inr acc' \<Longrightarrow> acc' = acc"
  "traverseTree_children p ns c True acc = Inr acc' \<Longrightarrow> acc' = acc"
proof (induction p n c "True" acc and p ns c "True" acc arbitrary: acc' and acc'
    rule: traverseTree_traverseTree_children.induct)
  case (1 parent ty tx fl sp ep cs curClass acc)
  then show ?case by simp
next
  case (2 parent curClass acc)
  then show ?case by simp
next
  case (3 parent child cs curClass acc)
  from "3.prems" obtain acc1 where
    first: "traverseTree parent child curClass True acc = Inr acc1" and
    rest: "traverseTree_children parent cs curClass True acc1 = Inr acc'"
    by (auto split: sum.splits)
  from "3.hyps"(1) [OF first] "3.hyps"(2) [OF first rest] show ?case by simp
qed

lemma declarations_candidate_subtree:
  assumes "candidate_kind ty"
    and "traverseTree p (Node ty tx fl sp ep cs) c False acc = Inr acc'"
  shows "\<exists>ns. name_and_signature p (Node ty tx fl sp ep cs)
            (class_on_entry (Node ty tx fl sp ep cs) c) = Inr ns \<and>
          acc' = push_declaration (Node ty tx fl sp ep cs) ns acc"
  using assms by (auto split: sum.splits dest: declarations_nothing_inside_function(2))

lemma analyze_skips_function_inside_function_expression:
  "analyzeFunctions inner_program = Inr
     [\<lparr>name = ''f'', parameters = ''()'', returnType = ''void'', class_name = None,
       call = None\<rparr>]"
  by code_simp

text \<open>
  Claim C1. A function declared inside the body of another function never appears as a
  record, in both variants. \<open>getFunctionDeclarations\<close> breaks this for the body of a
  function expression: on \<open>const f = function() { function inner() {} }\<close> it reports the
  inner function (\<open>analyzeFunctions\<close> reports \<open>f\<close> alone on the same tree).
\<close>

theorem declarations_emit_function_inside_function_expression:
  "getFunctionDeclarations inner_program = Inr
     [\<lparr>decl_type = ''function_declaration'', decl_name = ''inner()'',
       decl_startPosition = (0, 0), decl_endPosition = (0, 0)\<rparr>]"
  by code_simp

section \<open>The current class\<close>

lemma class_reset_on_exit:
  "ntype n = ''class_declaration'' \<Longrightarrow> traverse ancs n st = Inr st' \<Longrightarrow>
   currentClass st' = None"
  by (cases n) (auto simp: leave_node_def split: sum.splits)

text \<open>Outside the subtree of a class the current class stays absent.\<close>

lemma class_stays_absent:
  "traverse ancs n st = Inr st' \<Longrightarrow> currentClass st = None \<Longrightarrow> currentClass st' = None"
  "traverse_children ancs ns st = Inr st' \<Longrightarrow> currentClass st = None \<Longrightarrow> currentClass st' = None"
proof (induction ancs n st and ancs ns st arbitrary: st' and st'
    rule: traverse_traverse_children.induct)
  case (1 ancestors ty tx fl sp ep cs st)
  let ?n = "Node ty tx fl sp ep cs"
  from "1.prems"(1) obtain st1 st2 where
    enter: "enter_node ancestors ?n st = Inr st1" and
    kids: "traverse_children (?n # ancestors) cs st1 = Inr st2" and
    leave: "st' = leave_node ?n st2"
    by (auto split: sum.splits)
  show ?case
  proof (cases "ty = ''class_declaration''")
    case True
    with leave show ?thesis by (simp add: leave_node_def)
  next
    case False
    with enter "1.prems"(2) have "currentClass st1 = None"
      by (auto simp: enter_node_def split: if_splits option.splits)
    from "1.IH" [OF enter kids this] False leave show ?thesis by (simp add: leave_node_def)
  qed
next
  case (2 ancestors st)
  then show ?case by simp
next
  case (3 ancestors child cs st)
  from "3.prems"(1) obtain st1 where
    first: "traverse ancestors child st = Inr st1" and
    rest: "traverse_children ancestors cs st1 = Inr st'"
    by (auto split: sum.splits)
  from "3.IH"(2) [OF first rest "3.IH"(1) [OF first "3.prems"(2)]] show ?case .
qed

lemma declarations_keep_class_after_nested_class:
  "getFunctionDeclarations nested_class_program = Inr
     [\<lparr>decl_type = ''method_definition'', decl_name = ''A.m()'',
       decl_startPosition = (0, 0), decl_endPosition = (0, 0)\<rparr>,
      \<lparr>decl_type = ''method_definition'', decl_name = ''A.k()'',
       decl_startPosition = (0, 0), decl_endPosition = (0, 0)\<rparr>]"
  by code_simp

text \<open>
  Claim C5. A method defined inside class \<open>C\<close> is emitted with class \<open>C\<close>, a function
  outside every class has no class, and the current class is reset once the subtree of a
  class is done. The reset does not restore the enclosing class: in
  \<open>class A { m() { class B {} } k() {} }\<close> the method \<open>k\<close> of \<open>A\<close> comes after the nested
  class \<open>B\<close> and is emitted without a class (\<open>getFunctionDeclarations\<close>, which hands the
  class down as a parameter, names it \<open>A.k()\<close>).
\<close>

theorem method_after_nested_class_has_no_class:
  "analyzeFunctions nested_class_program = Inr
     [\<lparr>name = ''m'', parameters = ''()'', returnType = ''void'',
       class_name = Some ''A'', call = None\<rparr>,
      \<lparr>name = ''k'', parameters = ''()'', returnType = ''void'',
       class_name = None, call = None\<rparr>]"
  by code_simp

end
